theory Spec2Isabelle
  imports Main "HOL-Library.Sublist"
begin

section \<open>Text\<close>

text \<open>
  A Python \<open>str\<close> is modelled as a HOL \<^typ>\<open>string\<close>; every \<^typ>\<open>char\<close> stands for one
  code point below 256. The line feed is \<open>CHR 0x0A\<close>, the NUL character \<open>CHR 0x00\<close>.
\<close>

definition isspace :: "char \<Rightarrow> bool" where
  \<comment> \<open>\<open>str.isspace\<close> and the regular expression class \<open>\s\<close> agree: on the code points
      below 256 both accept 9..13, 28..32, 133 and 160.\<close>
  "isspace c = (c \<in> set [CHR 0x09, CHR 0x0A, CHR 0x0B, CHR 0x0C, CHR 0x0D, CHR 0x1C,
                           CHR 0x1D, CHR 0x1E, CHR 0x1F, CHR 0x20, CHR 0x85, CHR 0xA0])"

definition strip :: "string \<Rightarrow> string" where
  \<comment> \<open>\<open>s.strip()\<close>\<close>
  "strip s = rev (dropWhile isspace (rev (dropWhile isspace s)))"

definition startswith :: "string \<Rightarrow> string \<Rightarrow> bool" where
  \<comment> \<open>\<open>s.startswith(p)\<close>\<close>
  "startswith s p = (take (length p) s = p)"

definition endswith :: "string \<Rightarrow> string \<Rightarrow> bool" where
  \<comment> \<open>\<open>s.endswith(p)\<close>\<close>
  "endswith s p = startswith (rev s) (rev p)"

definition slice :: "string \<Rightarrow> nat \<Rightarrow> nat \<Rightarrow> string" where
  \<comment> \<open>\<open>s[i:j]\<close> for non-negative bounds; Python clamps both to the length\<close>
  "slice s i j = take (j - i) (drop i s)"

section \<open>The marker pattern\<close>

text \<open>
  \<open>re.compile(r"^===== FILE:\s*(.*?)\s*=====$", re.MULTILINE)\<close>, as the backtracking
  matcher runs it. Each function below matches a tail of the pattern against the text
  that is left and returns the text after the match, trying the alternatives in the
  matcher's order: a greedy \<open>\s*\<close> first takes one more white space character and gives
  it back when the rest fails, the lazy \<open>(.*?)\<close> first stops and takes one more character
  (any but the line feed) when the rest fails.
\<close>

definition at_eol :: "string \<Rightarrow> bool" where
  \<comment> \<open>\<open>$\<close> under \<open>re.MULTILINE\<close>: at the end of the text or before a line feed\<close>
  "at_eol r = (case r of [] \<Rightarrow> True | c # _ \<Rightarrow> c = CHR 0x0A)"

definition lit_close :: "string \<Rightarrow> string option" where
  \<comment> \<open>\<open>=====$\<close>\<close>
  "lit_close r = (if startswith r ''====='' \<and> at_eol (drop 5 r) then Some (drop 5 r) else None)"

fun ws_close :: "string \<Rightarrow> string option" where
  \<comment> \<open>\<open>\s*=====$\<close>\<close>
  "ws_close [] = lit_close []"
| "ws_close (c # cs) =
     (if isspace c
      then (case ws_close cs of Some r \<Rightarrow> Some r | None \<Rightarrow> lit_close (c # cs))
      else lit_close (c # cs))"

fun grp_close :: "string \<Rightarrow> (string \<times> string) option" where
  \<comment> \<open>\<open>(.*?)\s*=====$\<close>: the captured group and the text after the match\<close>
  "grp_close [] = map_option (Pair []) (ws_close [])"
| "grp_close (c # cs) =
     (case ws_close (c # cs) of
        Some r \<Rightarrow> Some ([], r)
      | None \<Rightarrow>
          if c = CHR 0x0A then None
          else map_option (\<lambda>(g, r). (c # g, r)) (grp_close cs))"

fun ws_grp_close :: "string \<Rightarrow> (string \<times> string) option" where
  \<comment> \<open>\<open>\s*(.*?)\s*=====$\<close>\<close>
  "ws_grp_close [] = grp_close []"
| "ws_grp_close (c # cs) =
     (if isspace c
      then (case ws_grp_close cs of Some m \<Rightarrow> Some m | None \<Rightarrow> grp_close (c # cs))
      else grp_close (c # cs))"

definition match_at :: "string \<Rightarrow> (string \<times> string) option" where
  \<comment> \<open>the whole pattern at a position where \<open>^\<close> holds\<close>
  "match_at s = (if startswith s ''===== FILE:'' then ws_grp_close (drop 11 s) else None)"

record rmatch =
  m_start :: nat
  m_end :: nat
  m_group1 :: string

definition at_bol :: "string \<Rightarrow> nat \<Rightarrow> bool" where
  \<comment> \<open>\<open>^\<close> under \<open>re.MULTILINE\<close>: at the start of the text or after a line feed\<close>
  "at_bol content pos = (pos = 0 \<or> content ! (pos - 1) = CHR 0x0A)"

function finditer_from :: "string \<Rightarrow> nat \<Rightarrow> rmatch list" where
  \<comment> \<open>the scan of \<open>pattern.finditer\<close> from position \<open>pos\<close>: leftmost match first, the
      search resumes where the match ended (and always moves on)\<close>
  "finditer_from content pos =
     (if length content < pos then []
      else if at_bol content pos then
        (case match_at (drop pos content) of
           Some (g, r) \<Rightarrow>
             \<lparr>m_start = pos, m_end = length content - length r, m_group1 = g\<rparr>
               # finditer_from content (max (Suc pos) (length content - length r))
         | None \<Rightarrow> finditer_from content (Suc pos))
      else finditer_from content (Suc pos))"
  by pat_completeness auto
termination
  by (relation "measure (\<lambda>(content, pos). Suc (length content) - pos)") auto

definition finditer :: "string \<Rightarrow> rmatch list" where
  "finditer content = finditer_from content 0"

section \<open>Section parser\<close>

definition parse_concatenated_file :: "string \<Rightarrow> (string \<times> string) list" where
  "parse_concatenated_file content =
     (let matches = finditer content in
      if matches = [] then []
      else map (\<lambda>i.
             let match = matches ! i;
                 file_path = strip (m_group1 match);
                 start = m_end match;
                 end = (if i + 1 < length matches then m_start (matches ! (i + 1))
                        else length content);
                 file_content = slice content start end;
                 file_content = (if startswith file_content [CHR 0x0A]
                                 then drop 1 file_content else file_content)
             in (file_path, file_content))
           [0 ..< length matches])"

section \<open>Exceptions and results\<close>

text \<open>
  Every exception carries the text \<open>str(e)\<close>. The three classes are the ones the
  program tells apart: \<open>ValueError\<close>, \<open>FileNotFoundError\<close> and every other \<open>OSError\<close>;
  all of them derive from \<open>Exception\<close>. A call either returns, raises, or leaves
  through \<open>sys.exit\<close>.
\<close>

datatype exn = ValueError string | FileNotFoundError string | OSError string

fun str_exn :: "exn \<Rightarrow> string" where
  "str_exn (ValueError m) = m"
| "str_exn (FileNotFoundError m) = m"
| "str_exn (OSError m) = m"

fun is_ValueError :: "exn \<Rightarrow> bool" where
  "is_ValueError (ValueError _) = True"
| "is_ValueError _ = False"

fun is_FileNotFoundError :: "exn \<Rightarrow> bool" where
  "is_FileNotFoundError (FileNotFoundError _) = True"
| "is_FileNotFoundError _ = False"

datatype 'a result = Return 'a | Raise exn | Exit nat

section \<open>Paths\<close>

text \<open>
  \<open>pathlib\<close> and \<open>os.path\<close> on POSIX. A parsed path has a root (empty, \<open>/\<close> or \<open>//\<close>) and
  its components, empty ones and \<open>.\<close> dropped.
\<close>

fun split_on :: "char \<Rightarrow> string \<Rightarrow> string list" where
  \<comment> \<open>\<open>s.split(d)\<close>\<close>
  "split_on d [] = [[]]"
| "split_on d (c # cs) =
     (if c = d then [] # split_on d cs
      else (case split_on d cs of l # ls \<Rightarrow> (c # l) # ls | [] \<Rightarrow> [[c]]))"

record ppath =
  p_root :: string
  p_parts :: "string list"

definition path_root :: "string \<Rightarrow> string" where
  "path_root s =
     (if startswith s ''//'' \<and> \<not> startswith s ''///'' then ''//''
      else if startswith s ''/'' then ''/'' else [])"

definition Path :: "string \<Rightarrow> ppath" where
  "Path s = \<lparr>p_root = path_root s,
             p_parts = filter (\<lambda>x. x \<noteq> [] \<and> x \<noteq> ''.'') (split_on CHR ''/'' s)\<rparr>"

definition joinpath :: "ppath \<Rightarrow> string \<Rightarrow> ppath" where
  \<comment> \<open>\<open>base / s\<close>: a rooted right operand replaces the left one\<close>
  "joinpath base s =
     (let q = Path s in
      if p_root q \<noteq> [] then q
      else \<lparr>p_root = p_root base, p_parts = p_parts base @ p_parts q\<rparr>)"

fun collapse :: "string list \<Rightarrow> string list \<Rightarrow> string list" where
  \<comment> \<open>walks the components from the directory \<open>cur\<close>; \<open>..\<close> of the root is the root\<close>
  "collapse cur [] = cur"
| "collapse cur (x # xs) =
     (if x = [] \<or> x = ''.'' then collapse cur xs
      else if x = ''..'' then collapse (butlast cur) xs
      else collapse (cur @ [x]) xs)"

definition relative_to :: "ppath \<Rightarrow> ppath \<Rightarrow> exn + ppath" where
  \<comment> \<open>\<open>target.relative_to(base)\<close>\<close>
  "relative_to target base =
     (if p_root target = p_root base
         \<and> take (length (p_parts base)) (p_parts target) = p_parts base
      then Inr \<lparr>p_root = [], p_parts = drop (length (p_parts base)) (p_parts target)\<rparr>
      else Inl (ValueError ''path is not in the subpath of the base''))"

definition os_path_join :: "string \<Rightarrow> string \<Rightarrow> string" where
  "os_path_join a b =
     (if startswith b ''/'' then b
      else if a = [] \<or> endswith a ''/'' then a @ b
      else a @ ''/'' @ b)"

definition os_path_dirname :: "string \<Rightarrow> string" where
  "os_path_dirname p =
     (let head = rev (dropWhile (\<lambda>c. c \<noteq> CHR ''/'') (rev p)) in
      if head \<noteq> [] \<and> head \<noteq> replicate (length head) CHR ''/''
      then rev (dropWhile (\<lambda>c. c = CHR ''/'') (rev head))
      else head)"

section \<open>The file system\<close>

text \<open>
  The environment: one process on a POSIX file system without symbolic links. A node is
  the list of names from the root. Calls that are handed a path with a NUL character
  raise \<open>ValueError\<close>, as the interpreter does before it reaches the system. The program
  tells the errors of the system apart by their class only; of their text the model keeps
  the error number and its description, not the file name the interpreter appends.
\<close>

type_synonym node = "string list"

record filesystem =
  fs_cwd :: node
  fs_dirs :: "node set"
  fs_files :: "node \<rightharpoonup> string"
  fs_denied :: "node set"

definition has_nul :: "string \<Rightarrow> bool" where
  "has_nul p = (CHR 0x00 \<in> set p)"

definition is_dir :: "filesystem \<Rightarrow> node \<Rightarrow> bool" where
  "is_dir fs n = (n = [] \<or> n \<in> fs_dirs fs)"

definition is_file :: "filesystem \<Rightarrow> node \<Rightarrow> bool" where
  "is_file fs n = (n \<in> dom (fs_files fs))"

definition start_of :: "filesystem \<Rightarrow> string \<Rightarrow> node" where
  "start_of fs p = (if startswith p ''/'' then [] else fs_cwd fs)"

fun walk :: "filesystem \<Rightarrow> node \<Rightarrow> string list \<Rightarrow> exn + node" where
  \<comment> \<open>the lookup of a directory, component by component\<close>
  "walk fs cur [] = Inr cur"
| "walk fs cur (x # xs) =
     (if x = [] \<or> x = ''.'' then walk fs cur xs
      else if x = ''..'' then walk fs (butlast cur) xs
      else if is_dir fs (cur @ [x]) then walk fs (cur @ [x]) xs
      else if is_file fs (cur @ [x]) then Inl (OSError ''[Errno 20] Not a directory'')
      else Inl (FileNotFoundError ''[Errno 2] No such file or directory''))"

definition special :: "string \<Rightarrow> bool" where
  "special x = (x = [] \<or> x = ''.'' \<or> x = ''..'')"

definition os_path_isdir :: "filesystem \<Rightarrow> string \<Rightarrow> bool" where
  "os_path_isdir fs p =
     (p \<noteq> [] \<and> \<not> has_nul p \<and>
      (case walk fs (start_of fs p) (split_on CHR ''/'' p) of Inr _ \<Rightarrow> True | Inl _ \<Rightarrow> False))"

definition os_path_exists :: "filesystem \<Rightarrow> string \<Rightarrow> bool" where
  "os_path_exists fs p =
     (p \<noteq> [] \<and> \<not> has_nul p \<and>
      (let xs = split_on CHR ''/'' p in
       case walk fs (start_of fs p) (butlast xs) of
         Inl _ \<Rightarrow> False
       | Inr cur \<Rightarrow> special (last xs) \<or> is_dir fs (cur @ [last xs])
                     \<or> is_file fs (cur @ [last xs])))"

fun univ_newlines :: "string \<Rightarrow> string" where
  \<comment> \<open>text mode reading turns \<open>\r\n\<close> and \<open>\r\<close> into the line feed\<close>
  "univ_newlines [] = []"
| "univ_newlines [c] = (if c = CHR 0x0D then [CHR 0x0A] else [c])"
| "univ_newlines (c # d # cs) =
     (if c = CHR 0x0D \<and> d = CHR 0x0A then CHR 0x0A # univ_newlines cs
      else if c = CHR 0x0D then CHR 0x0A # univ_newlines (d # cs)
      else c # univ_newlines (d # cs))"

definition os_read_text :: "filesystem \<Rightarrow> string \<Rightarrow> exn + string" where
  \<comment> \<open>\<open>open(p, "r", encoding="utf-8")\<close> and \<open>f.read()\<close>\<close>
  "os_read_text fs p =
     (if has_nul p then Inl (ValueError ''embedded null byte'')
      else if p = [] then Inl (FileNotFoundError ''[Errno 2] No such file or directory'')
      else
        let xs = split_on CHR ''/'' p in
        case walk fs (start_of fs p) (butlast xs) of
          Inl e \<Rightarrow> Inl e
        | Inr cur \<Rightarrow>
            if special (last xs) \<or> is_dir fs (cur @ [last xs])
            then Inl (OSError ''[Errno 21] Is a directory'')
            else (case fs_files fs (cur @ [last xs]) of
                    None \<Rightarrow> Inl (FileNotFoundError ''[Errno 2] No such file or directory'')
                  | Some text \<Rightarrow>
                      if cur @ [last xs] \<in> fs_denied fs
                      then Inl (OSError ''[Errno 13] Permission denied'')
                      else Inr (univ_newlines text)))"

fun mkdirs :: "filesystem \<Rightarrow> node \<Rightarrow> string list \<Rightarrow> exn option \<times> filesystem" where
  \<comment> \<open>\<open>os.makedirs(p, exist_ok=True)\<close> from the directory \<open>cur\<close>: missing directories
      are created from the left, the ones created before a failure stay\<close>
  "mkdirs fs cur [] = (None, fs)"
| "mkdirs fs cur (x # xs) =
     (if x = [] \<or> x = ''.'' then mkdirs fs cur xs
      else if x = ''..'' then mkdirs fs (butlast cur) xs
      else if is_dir fs (cur @ [x]) then mkdirs fs (cur @ [x]) xs
      else if is_file fs (cur @ [x])
        then (Some (OSError (if list_all (\<lambda>y. y = []) xs then ''[Errno 17] File exists''
                             else ''[Errno 20] Not a directory'')), fs)
      else if cur @ [x] \<in> fs_denied fs
        then (Some (OSError ''[Errno 13] Permission denied''), fs)
      else mkdirs (fs\<lparr>fs_dirs := insert (cur @ [x]) (fs_dirs fs)\<rparr>) (cur @ [x]) xs)"

definition os_makedirs :: "filesystem \<Rightarrow> string \<Rightarrow> exn option \<times> filesystem" where
  "os_makedirs fs p =
     (if has_nul p then (Some (ValueError ''embedded null byte''), fs)
      else if p = [] then (Some (FileNotFoundError ''[Errno 2] No such file or directory''), fs)
      else mkdirs fs (start_of fs p) (split_on CHR ''/'' p))"

definition os_write_text :: "filesystem \<Rightarrow> string \<Rightarrow> string \<Rightarrow> exn option \<times> filesystem" where
  \<comment> \<open>\<open>open(p, "w", encoding="utf-8")\<close>, \<open>f.write(text)\<close> and the close\<close>
  "os_write_text fs p text =
     (if has_nul p then (Some (ValueError ''embedded null byte''), fs)
      else if p = [] then (Some (FileNotFoundError ''[Errno 2] No such file or directory''), fs)
      else
        let xs = split_on CHR ''/'' p in
        case walk fs (start_of fs p) (butlast xs) of
          Inl e \<Rightarrow> (Some e, fs)
        | Inr cur \<Rightarrow>
            if special (last xs) \<or> is_dir fs (cur @ [last xs])
            then (Some (OSError ''[Errno 21] Is a directory''), fs)
            else if cur @ [last xs] \<in> fs_denied fs
            then (Some (OSError ''[Errno 13] Permission denied''), fs)
            else (None, fs\<lparr>fs_files := (fs_files fs)(cur @ [last xs] \<mapsto> text)\<rparr>))"

section \<open>Path safety checker\<close>

definition resolve :: "filesystem \<Rightarrow> ppath \<Rightarrow> exn + ppath" where
  \<comment> \<open>\<open>Path.resolve()\<close>: the path made absolute and normalised; the status call on a
      component with a NUL character raises \<open>ValueError\<close>\<close>
  "resolve fs p =
     (if list_ex has_nul (p_parts p) then Inl (ValueError ''embedded null byte'')
      else Inr \<lparr>p_root = (if p_root p = [] then ''/'' else p_root p),
                p_parts = collapse (if p_root p = [] then fs_cwd fs else []) (p_parts p)\<rparr>)"

definition is_safe_path :: "filesystem \<Rightarrow> string \<Rightarrow> string \<Rightarrow> exn + bool" where
  "is_safe_path fs base_dir file_path =
     (case resolve fs (Path base_dir) of
        Inl e \<Rightarrow> Inl e
      | Inr base \<Rightarrow>
          (case resolve fs (joinpath base file_path) of
             Inl e \<Rightarrow> Inl e
           | Inr target \<Rightarrow>
               (case relative_to target base of
                  Inr _ \<Rightarrow> Inr True
                | Inl e \<Rightarrow> if is_ValueError e then Inr False else Inl e)))"

section \<open>The process\<close>

text \<open>
  The state of a run: the file system, what was printed (one entry for each \<open>print\<close>
  call and for the prompt of \<open>input\<close>), and the calls that change the file system, in
  the order they were made.
\<close>

datatype syscall = Makedirs string | OpenWrite string string

record proc =
  p_fs :: filesystem
  p_stdout :: "string list"
  p_syscalls :: "syscall list"

definition print :: "string \<Rightarrow> proc \<Rightarrow> proc" where
  "print s \<sigma> = \<sigma>\<lparr>p_stdout := p_stdout \<sigma> @ [s]\<rparr>"

definition makedirs :: "string \<Rightarrow> proc \<Rightarrow> exn option \<times> proc" where
  "makedirs p \<sigma> =
     (case os_makedirs (p_fs \<sigma>) p of
        (r, fs') \<Rightarrow> (r, \<sigma>\<lparr>p_fs := fs', p_syscalls := p_syscalls \<sigma> @ [Makedirs p]\<rparr>))"

definition open_write :: "string \<Rightarrow> string \<Rightarrow> proc \<Rightarrow> exn option \<times> proc" where
  "open_write p text \<sigma> =
     (case os_write_text (p_fs \<sigma>) p text of
        (r, fs') \<Rightarrow> (r, \<sigma>\<lparr>p_fs := fs', p_syscalls := p_syscalls \<sigma> @ [OpenWrite p text]\<rparr>))"

definition COLOR_RESET :: string where "COLOR_RESET = CHR 0x1B # ''[0m''"
definition COLOR_GREEN :: string where "COLOR_GREEN = CHR 0x1B # ''[92m''"
definition COLOR_BLUE :: string where "COLOR_BLUE = CHR 0x1B # ''[94m''"
definition COLOR_YELLOW :: string where "COLOR_YELLOW = CHR 0x1B # ''[93m''"
definition COLOR_RED :: string where "COLOR_RED = CHR 0x1B # ''[91m''"
definition BOLD :: string where "BOLD = CHR 0x1B # ''[1m''"

section \<open>Status reporter\<close>

fun list_files_loop ::
  "(string \<times> string) list \<Rightarrow> string \<Rightarrow> bool \<Rightarrow> proc \<Rightarrow> bool result \<times> proc" where
  \<comment> \<open>the \<open>for\<close> loop of \<open>list_files_status\<close>, \<open>has_unsafe\<close> threaded through\<close>
  "list_files_loop [] output_dir has_unsafe \<sigma> = (Return has_unsafe, \<sigma>)"
| "list_files_loop ((file_path, _) # rest) output_dir has_unsafe \<sigma> =
     (case is_safe_path (p_fs \<sigma>) output_dir file_path of
        Inl e \<Rightarrow> (Raise e, \<sigma>)
      | Inr safe \<Rightarrow>
          if \<not> safe then
            list_files_loop rest output_dir True
              (print ('' - '' @ file_path @ '' ['' @ COLOR_RED @ ''UNSAFE PATH'' @ COLOR_RESET @ '']'') \<sigma>)
          else
            let full_path = os_path_join output_dir file_path;
                status = (if os_path_exists (p_fs \<sigma>) full_path
                          then COLOR_BLUE @ ''EXISTING'' @ COLOR_RESET
                          else COLOR_GREEN @ ''NEW'' @ COLOR_RESET)
            in list_files_loop rest output_dir has_unsafe
                 (print ('' - '' @ file_path @ '' ['' @ status @ '']'') \<sigma>))"

definition list_files_status ::
  "(string \<times> string) list \<Rightarrow> string \<Rightarrow> proc \<Rightarrow> bool result \<times> proc" where
  "list_files_status files output_dir \<sigma> =
     (case list_files_loop files output_dir False
             (print (CHR 0x0A # BOLD @ ''Files detected in input:'' @ COLOR_RESET @ [CHR 0x0A]) \<sigma>) of
        (Return has_unsafe, \<sigma>') \<Rightarrow> (Return has_unsafe, print [] \<sigma>')
      | (r, \<sigma>') \<Rightarrow> (r, \<sigma>'))"

section \<open>File writer\<close>

fun write_loop ::
  "(string \<times> string) list \<Rightarrow> string \<Rightarrow> string list \<Rightarrow> proc \<Rightarrow> exn option \<times> string list \<times> proc" where
  \<comment> \<open>the \<open>for\<close> loop inside the \<open>try\<close> of \<open>write_files\<close>: the exception that left the
      loop, if any, the list \<open>written_files\<close> and the state\<close>
  "write_loop [] output_dir written_files \<sigma> = (None, written_files, \<sigma>)"
| "write_loop ((file_path, content) # rest) output_dir written_files \<sigma> =
     (case is_safe_path (p_fs \<sigma>) output_dir file_path of
        Inl e \<Rightarrow> (Some e, written_files, \<sigma>)
      | Inr safe \<Rightarrow>
          if \<not> safe then
            (Some (ValueError (''Unsafe path detected: '' @ file_path)), written_files, \<sigma>)
          else
            let full_path = os_path_join output_dir file_path;
                dir_path = os_path_dirname full_path
            in (case (if dir_path \<noteq> [] then makedirs dir_path \<sigma> else (None, \<sigma>)) of
                  (Some e, \<sigma>1) \<Rightarrow> (Some e, written_files, \<sigma>1)
                | (None, \<sigma>1) \<Rightarrow>
                    (case open_write full_path content \<sigma>1 of
                       (Some e, \<sigma>2) \<Rightarrow> (Some e, written_files, \<sigma>2)
                     | (None, \<sigma>2) \<Rightarrow>
                         write_loop rest output_dir (written_files @ [full_path])
                           (print (''Written: '' @ full_path) \<sigma>2))))"

definition report_written :: "exn \<Rightarrow> string list \<Rightarrow> string list" where
  \<comment> \<open>what the \<open>except\<close> branch of \<open>write_files\<close> prints\<close>
  "report_written e written_files =
     [CHR 0x0A # COLOR_RED @ ''Error during write: '' @ str_exn e @ COLOR_RESET,
      COLOR_YELLOW @ ''Successfully written files:'' @ COLOR_RESET]
     @ map (\<lambda>path. '' - '' @ path) written_files"

definition write_files :: "(string \<times> string) list \<Rightarrow> string \<Rightarrow> proc \<Rightarrow> unit result \<times> proc" where
  "write_files files output_dir \<sigma> =
     (case write_loop files output_dir [] \<sigma> of
        (None, _, \<sigma>') \<Rightarrow>
          (Return (),
           print (CHR 0x0A # BOLD @ COLOR_GREEN @ ''All files written successfully.'' @ COLOR_RESET) \<sigma>')
      | (Some e, written_files, \<sigma>') \<Rightarrow>
          (Exit 1, fold print (report_written e written_files) \<sigma>'))"

section \<open>Entry point\<close>

text \<open>
  What \<open>input\<close> does at the confirmation prompt: it returns the line typed, or raises
  \<open>EOFError\<close> or \<open>KeyboardInterrupt\<close>.
\<close>

datatype response = Line string | EndOfFile | Interrupt

definition upper_letters :: string where
  \<comment> \<open>the code points below 256 that \<open>str.lower\<close> changes: A..Z, 192..214 and 216..222\<close>
  "upper_letters = ''ABCDEFGHIJKLMNOPQRSTUVWXYZ'' @
     [CHR 0xC0, CHR 0xC1, CHR 0xC2, CHR 0xC3, CHR 0xC4, CHR 0xC5, CHR 0xC6, CHR 0xC7,
      CHR 0xC8, CHR 0xC9, CHR 0xCA, CHR 0xCB, CHR 0xCC, CHR 0xCD, CHR 0xCE, CHR 0xCF,
      CHR 0xD0, CHR 0xD1, CHR 0xD2, CHR 0xD3, CHR 0xD4, CHR 0xD5, CHR 0xD6,
      CHR 0xD8, CHR 0xD9, CHR 0xDA, CHR 0xDB, CHR 0xDC, CHR 0xDD, CHR 0xDE]"

definition lower_letters :: string where
  \<comment> \<open>their images, each 32 code points higher\<close>
  "lower_letters = ''abcdefghijklmnopqrstuvwxyz'' @
     [CHR 0xE0, CHR 0xE1, CHR 0xE2, CHR 0xE3, CHR 0xE4, CHR 0xE5, CHR 0xE6, CHR 0xE7,
      CHR 0xE8, CHR 0xE9, CHR 0xEA, CHR 0xEB, CHR 0xEC, CHR 0xED, CHR 0xEE, CHR 0xEF,
      CHR 0xF0, CHR 0xF1, CHR 0xF2, CHR 0xF3, CHR 0xF4, CHR 0xF5, CHR 0xF6,
      CHR 0xF8, CHR 0xF9, CHR 0xFA, CHR 0xFB, CHR 0xFC, CHR 0xFD, CHR 0xFE]"

definition lower_char :: "char \<Rightarrow> char" where
  "lower_char c = (case map_of (zip upper_letters lower_letters) c of Some d \<Rightarrow> d | None \<Rightarrow> c)"

definition lower :: "string \<Rightarrow> string" where
  \<comment> \<open>\<open>s.lower()\<close>\<close>
  "lower s = map lower_char s"

definition confirm ::
  "(string \<times> string) list \<Rightarrow> string \<Rightarrow> response \<Rightarrow> proc \<Rightarrow> unit result \<times> proc" where
  \<comment> \<open>\<open>main\<close> from the confirmation prompt on\<close>
  "confirm files output_dir stdin \<sigma> =
     (let \<sigma>1 = print (BOLD @ ''Proceed with import? [Y/n]: '' @ COLOR_RESET) \<sigma> in
      case stdin of
        Interrupt \<Rightarrow>
          (Exit 0, print (CHR 0x0A # COLOR_YELLOW @ ''Import cancelled.'' @ COLOR_RESET) \<sigma>1)
      | EndOfFile \<Rightarrow>
          (Exit 0, print (CHR 0x0A # COLOR_YELLOW @ ''Import cancelled.'' @ COLOR_RESET) \<sigma>1)
      | Line answer \<Rightarrow>
          let proceed = lower (strip answer) in
          if proceed = ''n'' \<or> proceed = ''no''
          then (Exit 0, print (COLOR_YELLOW @ ''Import cancelled.'' @ COLOR_RESET) \<sigma>1)
          else write_files files output_dir \<sigma>1)"

definition main :: "string list \<Rightarrow> response \<Rightarrow> proc \<Rightarrow> unit result \<times> proc" where
  \<comment> \<open>\<open>argv\<close> is \<open>sys.argv\<close>, the name of the script first\<close>
  "main argv stdin \<sigma> =
     (if length argv < 2 then
        (Exit 1, print ''Usage: python split_project.py <concatenated_file> [output_dir]'' \<sigma>)
      else
        let input_file = argv ! 1;
            output_dir = (if length argv > 2 then argv ! 2 else ''.'')
        in
        if \<not> os_path_isdir (p_fs \<sigma>) output_dir then
          (Exit 1, print (COLOR_RED @ ''Error: Output directory does not exist: '' @ output_dir
                          @ COLOR_RESET) \<sigma>)
        else
          (case os_read_text (p_fs \<sigma>) input_file of
             Inl e \<Rightarrow>
               if is_FileNotFoundError e then
                 (Exit 1, print (COLOR_RED @ ''Error: Input file not found: '' @ input_file
                                 @ COLOR_RESET) \<sigma>)
               else
                 (Exit 1, print (COLOR_RED @ ''Error reading file: '' @ str_exn e @ COLOR_RESET) \<sigma>)
           | Inr content \<Rightarrow>
               let files = parse_concatenated_file content in
               if files = [] then
                 (Exit 0, print (COLOR_YELLOW
                    @ ''No file sections found. Make sure your input uses '' @ [CHR 0x27]
                    @ ''===== FILE: path ====='' @ [CHR 0x27] @ '' separators.'' @ COLOR_RESET) \<sigma>)
               else
                 (case list_files_status files output_dir \<sigma> of
                    (Return has_unsafe, \<sigma>1) \<Rightarrow>
                      if has_unsafe then
                        (Exit 1, print (COLOR_RED
                           @ ''Unsafe paths detected. Import cancelled for security.''
                           @ COLOR_RESET) \<sigma>1)
                      else confirm files output_dir stdin \<sigma>1
                  | (Raise e, \<sigma>1) \<Rightarrow> (Raise e, \<sigma>1)
                  | (Exit n, \<sigma>1) \<Rightarrow> (Exit n, \<sigma>1))))"

definition exit_status :: "unit result \<Rightarrow> nat" where
  \<comment> \<open>the status of the process: 0 when \<open>main\<close> returns, the argument of \<open>sys.exit\<close>,
      1 after an exception nobody caught\<close>
  "exit_status r = (case r of Return _ \<Rightarrow> 0 | Exit n \<Rightarrow> n | Raise _ \<Rightarrow> 1)"

definition run :: "string list \<Rightarrow> response \<Rightarrow> proc \<Rightarrow> nat \<times> proc" where
  "run argv stdin \<sigma> = (case main argv stdin \<sigma> of (r, \<sigma>') \<Rightarrow> (exit_status r, \<sigma>'))"

section \<open>Notions used in the statements\<close>

text \<open>
  The node a path names for the system calls: the components are walked from the root
  or from the working directory, \<open>..\<close> steps back. In a file system without symbolic
  links two paths name the same file exactly when they have the same node.
\<close>

definition node_of :: "node \<Rightarrow> string \<Rightarrow> node" where
  "node_of cwd p = collapse (if startswith p ''/'' then [] else cwd) (split_on CHR ''/'' p)"

text \<open>
  The calls one section makes when nothing fails (lines 102 to 110 of the source): the
  directory is created when the path has one, then the file is written.
\<close>

definition calls_of :: "string \<Rightarrow> string \<times> string \<Rightarrow> syscall list" where
  "calls_of output_dir section =
     (let full_path = os_path_join output_dir (fst section);
          dir_path = os_path_dirname full_path
      in (if dir_path \<noteq> [] then [Makedirs dir_path] else []) @ [OpenWrite full_path (snd section)])"

text \<open>
  The file store after the sections were written one after the other, each write
  replacing what the node held.
\<close>

definition store_after :: "node \<Rightarrow> string \<Rightarrow> (string \<times> string) list \<Rightarrow> (node \<rightharpoonup> string) \<Rightarrow> (node \<rightharpoonup> string)" where
  "store_after cwd output_dir files m =
     fold (\<lambda>(p, c) m. m(node_of cwd (os_path_join output_dir p) \<mapsto> c)) files m"

text \<open>
  The specification's containment: the resolved target is contained within (at or
  below) the resolved base directory.
\<close>

definition at_or_below :: "ppath \<Rightarrow> ppath \<Rightarrow> bool" where
  "at_or_below target base = (p_root target = p_root base \<and> prefix (p_parts base) (p_parts target))"

text \<open>
  The specification's marker line: a line of the form \<open>===== FILE: <path> =====\<close>,
  that is, one line of the input that starts with \<open>===== FILE:\<close> and, after it, ends
  with \<open>=====\<close>. The marker lines of an input are those of its lines (the input split
  at the line feeds) that have this form.
\<close>

definition spec_marker_line :: "string \<Rightarrow> bool" where
  "spec_marker_line l = (startswith l ''===== FILE:'' \<and> endswith (drop 11 l) ''====='')"

definition spec_marker_lines :: "string \<Rightarrow> string list" where
  "spec_marker_lines content = filter spec_marker_line (split_on CHR 0x0A content)"

section \<open>An example environment\<close>

text \<open>
  A small file system for the concrete runs below: the working directory \<open>/work\<close> with the
  directory \<open>out\<close> and the input file \<open>in.txt\<close>.
\<close>

definition demo_fs :: "string \<Rightarrow> filesystem" where
  "demo_fs text = \<lparr>fs_cwd = [''work''], fs_dirs = {[''work''], [''work'', ''out'']},
     fs_files = [[''work'', ''in.txt''] \<mapsto> text], fs_denied = {}\<rparr>"

definition demo_proc :: "string \<Rightarrow> proc" where
  "demo_proc text = \<lparr>p_fs = demo_fs text, p_stdout = [], p_syscalls = []\<rparr>"

section \<open>Evaluation\<close>

lemmas text_defs = isspace_def strip_def startswith_def endswith_def slice_def
lemmas pattern_defs = at_eol_def lit_close_def match_at_def at_bol_def finditer_def
  parse_concatenated_file_def Let_def
lemmas path_defs = Path_def path_root_def joinpath_def relative_to_def resolve_def has_nul_def
  is_safe_path_def os_path_join_def os_path_dirname_def
lemmas fs_defs = is_dir_def is_file_def start_of_def special_def os_path_isdir_def
  os_path_exists_def os_read_text_def os_makedirs_def os_write_text_def
lemmas proc_defs = print_def makedirs_def open_write_def list_files_status_def
  report_written_def write_files_def lower_def lower_char_def upper_letters_def
  lower_letters_def confirm_def main_def exit_status_def run_def demo_fs_def demo_proc_def
  Let_def

section \<open>What a match of the pattern is\<close>

text \<open>
  Every match the model reports is a text of the pattern's language: the literal
  \<open>===== FILE:\<close>, white space, the group without a line feed, white space, the literal
  \<open>=====\<close>, and then the end of a line. A match is at least 16 characters long, so the
  scan moves on by itself, and the matches of \<open>finditer\<close> lie inside the text, each at the
  start of a line.
\<close>

lemma startswithD: "startswith s p \<Longrightarrow> s = p @ drop (length p) s"
  by (metis startswith_def append_take_drop_id)

lemma lit_close_shape:
  assumes "lit_close s = Some r"
  shows "s = ''====='' @ r \<and> at_eol r"
proof -
  from assms have t: "startswith s ''=====''" and r: "r = drop 5 s" and e: "at_eol r"
    by (auto simp: lit_close_def split: if_splits)
  from startswithD [OF t] r have "s = ''====='' @ r" by (simp add: eval_nat_numeral)
  with e show ?thesis by blast
qed

lemma ws_close_shape:
  "ws_close s = Some r \<Longrightarrow> \<exists>w. s = w @ ''====='' @ r \<and> list_all isspace w \<and> at_eol r"
proof (induction s)
  case Nil
  then show ?case by (auto dest: lit_close_shape)
next
  case (Cons c cs)
  show ?case
  proof (cases "isspace c \<and> ws_close cs \<noteq> None")
    case True
    with Cons.prems have "ws_close cs = Some r" by auto
    from Cons.IH [OF this] obtain w where "cs = w @ ''====='' @ r" "list_all isspace w" "at_eol r"
      by blast
    with True have "c # cs = (c # w) @ ''====='' @ r \<and> list_all isspace (c # w) \<and> at_eol r"
      by simp
    then show ?thesis by blast
  next
    case False
    with Cons.prems have "lit_close (c # cs) = Some r" by (auto split: if_splits option.splits)
    from lit_close_shape [OF this]
    have "c # cs = [] @ ''====='' @ r \<and> list_all isspace [] \<and> at_eol r" by simp
    then show ?thesis by blast
  qed
qed

lemma grp_close_shape:
  "grp_close s = Some (g, r) \<Longrightarrow>
     \<exists>w. s = g @ w @ ''====='' @ r \<and> list_all isspace w \<and> at_eol r \<and> CHR 0x0A \<notin> set g"
proof (induction s arbitrary: g)
  case Nil
  then show ?case by (auto dest: lit_close_shape)
next
  case (Cons c cs)
  show ?case
  proof (cases "ws_close (c # cs)")
    case (Some r')
    with Cons.prems have "g = []" "r' = r" by auto
    with ws_close_shape [OF Some] show ?thesis by auto
  next
    case None
    with Cons.prems obtain g' where nl: "c \<noteq> CHR 0x0A" and g: "g = c # g'"
      and rec: "grp_close cs = Some (g', r)"
      by (auto split: if_splits)
    from Cons.IH [OF rec] g nl show ?thesis by auto
  qed
qed

lemma ws_grp_close_shape:
  "ws_grp_close s = Some (g, r) \<Longrightarrow>
     \<exists>w w'. s = w @ g @ w' @ ''====='' @ r \<and> list_all isspace w \<and> list_all isspace w'
        \<and> at_eol r \<and> CHR 0x0A \<notin> set g"
proof (induction s)
  case Nil
  with grp_close_shape [of "[]" g r] show ?case by auto
next
  case (Cons c cs)
  show ?case
  proof (cases "isspace c \<and> ws_grp_close cs \<noteq> None")
    case True
    with Cons.prems have "ws_grp_close cs = Some (g, r)" by auto
    from Cons.IH [OF this] obtain w w' where
      "cs = w @ g @ w' @ ''====='' @ r" "list_all isspace w" "list_all isspace w'"
      "at_eol r" "CHR 0x0A \<notin> set g"
      by blast
    with True have "c # cs = (c # w) @ g @ w' @ ''====='' @ r \<and> list_all isspace (c # w)
        \<and> list_all isspace w' \<and> at_eol r \<and> CHR 0x0A \<notin> set g"
      by simp
    then show ?thesis by blast
  next
    case False
    with Cons.prems have "grp_close (c # cs) = Some (g, r)"
      by (auto split: if_splits option.splits)
    from grp_close_shape [OF this] obtain w' where
      "c # cs = g @ w' @ ''====='' @ r" "list_all isspace w'" "at_eol r" "CHR 0x0A \<notin> set g"
      by blast
    then have "c # cs = [] @ g @ w' @ ''====='' @ r \<and> list_all isspace [] \<and> list_all isspace w'
        \<and> at_eol r \<and> CHR 0x0A \<notin> set g"
      by simp
    then show ?thesis by blast
  qed
qed

lemma match_at_shape:
  assumes "match_at s = Some (g, r)"
  shows "\<exists>w w'. s = ''===== FILE:'' @ w @ g @ w' @ ''====='' @ r
     \<and> list_all isspace w \<and> list_all isspace w' \<and> at_eol r \<and> CHR 0x0A \<notin> set g"
proof -
  from assms have p: "startswith s ''===== FILE:''" and m: "ws_grp_close (drop 11 s) = Some (g, r)"
    by (auto simp: match_at_def split: if_splits)
  from ws_grp_close_shape [OF m] obtain w w' where
    d: "drop 11 s = w @ g @ w' @ ''====='' @ r"
    and rest: "list_all isspace w" "list_all isspace w'" "at_eol r" "CHR 0x0A \<notin> set g"
    by blast
  from startswithD [OF p] d have "s = ''===== FILE:'' @ w @ g @ w' @ ''====='' @ r"
    by (simp add: eval_nat_numeral)
  with rest show ?thesis by blast
qed

lemma match_at_progress:
  assumes "match_at (drop pos content) = Some (g, r)"
  shows "pos + 16 \<le> length content - length r"
proof -
  from match_at_shape [OF assms] obtain w w' where
    s: "drop pos content = ''===== FILE:'' @ w @ g @ w' @ ''====='' @ r"
    by blast
  from s have "length (drop pos content) = 11 + length w + length g + length w' + 5 + length r"
    by simp
  then show ?thesis by simp
qed

lemma finditer_from_bounds:
  "m \<in> set (finditer_from content pos) \<Longrightarrow>
     pos \<le> m_start m \<and> m_start m + 16 \<le> m_end m \<and> m_end m \<le> length content
     \<and> at_bol content (m_start m)"
proof (induction content pos rule: finditer_from.induct)
  case (1 content pos)
  show ?case
  proof (cases "length content < pos")
    case True
    with "1.prems" show ?thesis by simp
  next
    case le: False
    show ?thesis
    proof (cases "at_bol content pos")
      case False
      with le "1.prems" have "m \<in> set (finditer_from content (Suc pos))"
        by (subst (asm) finditer_from.simps) simp
      with "1.IH" le False show ?thesis by fastforce
    next
      case bol: True
      show ?thesis
      proof (cases "match_at (drop pos content)")
        case None
        with le bol "1.prems" have "m \<in> set (finditer_from content (Suc pos))"
          by (subst (asm) finditer_from.simps) simp
        with "1.IH" le bol None show ?thesis by fastforce
      next
        case (Some gr)
        obtain g r where gr: "gr = (g, r)" by (cases gr)
        note pr = match_at_progress [OF Some [unfolded gr]]
        from le bol Some gr "1.prems" have
          "m = \<lparr>m_start = pos, m_end = length content - length r, m_group1 = g\<rparr>
           \<or> m \<in> set (finditer_from content (max (Suc pos) (length content - length r)))"
          by (subst (asm) finditer_from.simps) simp
        then show ?thesis
        proof
          assume "m = \<lparr>m_start = pos, m_end = length content - length r, m_group1 = g\<rparr>"
          with pr bol show ?thesis by simp
        next
          assume "m \<in> set (finditer_from content (max (Suc pos) (length content - length r)))"
          with "1.IH" le bol Some gr have
            "max (Suc pos) (length content - length r) \<le> m_start m \<and> m_start m + 16 \<le> m_end m
             \<and> m_end m \<le> length content \<and> at_bol content (m_start m)"
            by blast
          then show ?thesis by simp
        qed
      qed
    qed
  qed
qed

lemma parse_length: "length (parse_concatenated_file content) = length (finditer content)"
  by (simp add: parse_concatenated_file_def Let_def)

text \<open>
  The example of the specification, run in the example environment: \<open>a.txt\<close> receives
  \<open>hello\<close> with its line feed and \<open>b/c.txt\<close>, in a directory that is created, \<open>world\<close>.
\<close>

lemma spec_example_run:
  "parse_concatenated_file ''===== FILE: a.txt =====\<newline>hello\<newline>===== FILE: b/c.txt =====\<newline>world''
     = [(''a.txt'', ''hello\<newline>''), (''b/c.txt'', ''world'')]
   \<and> fst (run [''splitter.py'', ''in.txt'', ''out''] (Line [])
        (demo_proc ''===== FILE: a.txt =====\<newline>hello\<newline>===== FILE: b/c.txt =====\<newline>world'')) = 0
   \<and> fs_files (p_fs (snd (run [''splitter.py'', ''in.txt'', ''out''] (Line [])
        (demo_proc ''===== FILE: a.txt =====\<newline>hello\<newline>===== FILE: b/c.txt =====\<newline>world''))))
        [''work'', ''out'', ''a.txt''] = Some ''hello\<newline>''
   \<and> fs_files (p_fs (snd (run [''splitter.py'', ''in.txt'', ''out''] (Line [])
        (demo_proc ''===== FILE: a.txt =====\<newline>hello\<newline>===== FILE: b/c.txt =====\<newline>world''))))
        [''work'', ''out'', ''b'', ''c.txt''] = Some ''world''"
  by (simp add: text_defs pattern_defs path_defs fs_defs proc_defs)

section \<open>Status reporter and the all-or-nothing gate\<close>

lemma print_frame [simp]:
  "p_fs (print s \<sigma>) = p_fs \<sigma>" "p_syscalls (print s \<sigma>) = p_syscalls \<sigma>"
  "p_stdout (print s \<sigma>) = p_stdout \<sigma> @ [s]"
  by (simp_all add: print_def)

lemma fold_print_frame [simp]:
  "p_fs (fold print ls \<sigma>) = p_fs \<sigma>" "p_syscalls (fold print ls \<sigma>) = p_syscalls \<sigma>"
  "p_stdout (fold print ls \<sigma>) = p_stdout \<sigma> @ ls"
  by (induction ls arbitrary: \<sigma>) simp_all

lemma list_files_loop_frame:
  "list_files_loop fl out h \<sigma> = (r, \<sigma>') \<Longrightarrow> p_fs \<sigma>' = p_fs \<sigma> \<and> p_syscalls \<sigma>' = p_syscalls \<sigma>"
proof (induction fl arbitrary: h \<sigma>)
  case Nil
  then show ?case by simp
next
  case (Cons a fl)
  obtain p c where a: "a = (p, c)" by (cases a)
  show ?case
  proof (cases "is_safe_path (p_fs \<sigma>) out p")
    case (Inl e)
    with Cons.prems a show ?thesis by simp
  next
    case (Inr safe)
    with Cons.prems a show ?thesis
      by (cases safe) (auto simp: Let_def dest!: Cons.IH)
  qed
qed

lemma list_files_loop_result:
  "list_files_loop fl out h \<sigma> = (r, \<sigma>') \<Longrightarrow>
     (case r of
        Return b \<Rightarrow> (b \<longleftrightarrow> h \<or> (\<exists>(p, c) \<in> set fl. is_safe_path (p_fs \<sigma>) out p = Inr False))
                     \<and> (\<forall>(p, c) \<in> set fl. \<exists>s. is_safe_path (p_fs \<sigma>) out p = Inr s)
      | Raise e \<Rightarrow> (\<exists>(p, c) \<in> set fl. is_safe_path (p_fs \<sigma>) out p = Inl e)
      | Exit n \<Rightarrow> False)"
proof (induction fl arbitrary: h \<sigma>)
  case Nil
  then show ?case by auto
next
  case (Cons a fl)
  obtain p c where a: "a = (p, c)" by (cases a)
  show ?case
  proof (cases "is_safe_path (p_fs \<sigma>) out p")
    case (Inl e)
    with Cons.prems a show ?thesis by auto
  next
    case (Inr safe)
    show ?thesis
    proof (cases safe)
      case True
      with Inr Cons.prems a obtain \<sigma>1 where
        rec: "list_files_loop fl out h \<sigma>1 = (r, \<sigma>')" and fs1: "p_fs \<sigma>1 = p_fs \<sigma>"
        by (auto simp: Let_def)
      from Cons.IH [OF rec] fs1 Inr True a show ?thesis
        by (cases r) auto
    next
      case False
      with Inr Cons.prems a obtain \<sigma>1 where
        rec: "list_files_loop fl out True \<sigma>1 = (r, \<sigma>')" and fs1: "p_fs \<sigma>1 = p_fs \<sigma>"
        by (auto simp: Let_def)
      from Cons.IH [OF rec] fs1 Inr False a show ?thesis
        by (cases r) auto
    qed
  qed
qed

lemma list_files_status_frame:
  "list_files_status fl out \<sigma> = (r, \<sigma>') \<Longrightarrow> p_fs \<sigma>' = p_fs \<sigma> \<and> p_syscalls \<sigma>' = p_syscalls \<sigma>"
  by (auto simp: list_files_status_def split: prod.splits result.splits dest!: list_files_loop_frame)

lemma list_files_status_result:
  assumes "list_files_status fl out \<sigma> = (r, \<sigma>')"
  shows "case r of
        Return b \<Rightarrow> (b \<longleftrightarrow> (\<exists>(p, c) \<in> set fl. is_safe_path (p_fs \<sigma>) out p = Inr False))
                     \<and> (\<forall>(p, c) \<in> set fl. \<exists>s. is_safe_path (p_fs \<sigma>) out p = Inr s)
      | Raise e \<Rightarrow> (\<exists>(p, c) \<in> set fl. is_safe_path (p_fs \<sigma>) out p = Inl e)
      | Exit n \<Rightarrow> False"
proof -
  let ?\<sigma>0 = "print (CHR 0x0A # BOLD @ ''Files detected in input:'' @ COLOR_RESET @ [CHR 0x0A]) \<sigma>"
  obtain r0 \<sigma>0' where l: "list_files_loop fl out False ?\<sigma>0 = (r0, \<sigma>0')"
    by (cases "list_files_loop fl out False ?\<sigma>0")
  from assms l have "r = r0"
    by (auto simp: list_files_status_def split: result.splits)
  with list_files_loop_result [OF l] show ?thesis by (cases r0) simp_all
qed

lemma main_listing:
  assumes "2 \<le> length argv"
    and "output_dir = (if 2 < length argv then argv ! 2 else ''.'')"
    and "os_path_isdir (p_fs \<sigma>) output_dir"
    and "os_read_text (p_fs \<sigma>) (argv ! 1) = Inr content"
    and "parse_concatenated_file content \<noteq> []"
  shows "main argv stdin \<sigma> =
     (case list_files_status (parse_concatenated_file content) output_dir \<sigma> of
        (Return has_unsafe, \<sigma>1) \<Rightarrow>
          if has_unsafe then
            (Exit 1, print (COLOR_RED @ ''Unsafe paths detected. Import cancelled for security.''
                            @ COLOR_RESET) \<sigma>1)
          else confirm (parse_concatenated_file content) output_dir stdin \<sigma>1
      | (Raise e, \<sigma>1) \<Rightarrow> (Raise e, \<sigma>1)
      | (Exit n, \<sigma>1) \<Rightarrow> (Exit n, \<sigma>1))"
  using assms(1,3,4,5) unfolding assms(2) by (simp add: main_def Let_def)

lemma main_early_frame:
  assumes "\<not> (2 \<le> length argv
      \<and> os_path_isdir (p_fs \<sigma>) (if 2 < length argv then argv ! 2 else ''.'')
      \<and> (\<exists>content. os_read_text (p_fs \<sigma>) (argv ! 1) = Inr content
            \<and> parse_concatenated_file content \<noteq> []))"
  shows "p_fs (snd (main argv stdin \<sigma>)) = p_fs \<sigma> \<and> p_syscalls (snd (main argv stdin \<sigma>)) = p_syscalls \<sigma>
     \<and> (\<exists>n. fst (main argv stdin \<sigma>) = Exit n)"
  using assms by (auto simp: main_def Let_def split: sum.splits)

text \<open>
  Claim C3. When the input file was read and one of its parsed sections has a path that
  fails the safety check (\<open>is_safe_path\<close> returns \<open>False\<close> or raises), the run ends with
  status 1, the file system is as it was and no call that changes it was made, whatever
  the other sections are and whatever is answered at the prompt. And whenever
  \<open>list_files_status\<close> returns, it returns \<open>True\<close> exactly when some section is unsafe.
\<close>

theorem unsafe_path_gate:
  assumes "2 \<le> length argv"
    and "output_dir = (if 2 < length argv then argv ! 2 else ''.'')"
    and "os_read_text (p_fs \<sigma>) (argv ! 1) = Inr content"
    and "(path, text) \<in> set (parse_concatenated_file content)"
    and "is_safe_path (p_fs \<sigma>) output_dir path \<noteq> Inr True"
  shows "fst (run argv stdin \<sigma>) = 1
     \<and> p_fs (snd (run argv stdin \<sigma>)) = p_fs \<sigma>
     \<and> p_syscalls (snd (run argv stdin \<sigma>)) = p_syscalls \<sigma>
     \<and> (\<forall>fl b \<sigma>'. list_files_status fl output_dir \<sigma> = (Return b, \<sigma>') \<longrightarrow>
           (b \<longleftrightarrow> (\<exists>(p, c) \<in> set fl. is_safe_path (p_fs \<sigma>) output_dir p = Inr False)))"
proof -
  let ?fl = "parse_concatenated_file content"
  have listing: "b \<longleftrightarrow> (\<exists>(p, c) \<in> set fl. is_safe_path (p_fs \<sigma>) output_dir p = Inr False)"
    if "list_files_status fl output_dir \<sigma> = (Return b, \<sigma>')" for fl b \<sigma>'
    using list_files_status_result [OF that] by simp
  have run: "fst (run argv stdin \<sigma>) = 1
     \<and> p_fs (snd (run argv stdin \<sigma>)) = p_fs \<sigma>
     \<and> p_syscalls (snd (run argv stdin \<sigma>)) = p_syscalls \<sigma>"
  proof (cases "os_path_isdir (p_fs \<sigma>) output_dir")
    case False
    with assms(1,2) show ?thesis
      by (simp add: run_def main_def Let_def exit_status_def)
  next
    case True
    from assms(4) have ne: "?fl \<noteq> []" by auto
    obtain r \<sigma>1 where l: "list_files_status ?fl output_dir \<sigma> = (r, \<sigma>1)"
      by (cases "list_files_status ?fl output_dir \<sigma>")
    note m = main_listing [OF assms(1,2) True assms(3) ne, of stdin]
    note fr = list_files_status_frame [OF l]
    show ?thesis
    proof (cases r)
      case (Return b)
      from list_files_status_result [OF l] Return assms(4,5) have b
        by (cases "is_safe_path (p_fs \<sigma>) output_dir path") force+
      with m l Return fr show ?thesis
        by (simp add: run_def exit_status_def)
    next
      case (Raise e)
      with m l fr show ?thesis by (simp add: run_def exit_status_def)
    next
      case (Exit n)
      with list_files_status_result [OF l] show ?thesis by simp
    qed
  qed
  from run listing show ?thesis by blast
qed

theorem unsafe_path_gate_witness:
  "(''../secret.txt'', ''B'') \<in> set (parse_concatenated_file
       ''===== FILE: ok.txt =====\<newline>A\<newline>===== FILE: ../secret.txt =====\<newline>B'')
   \<and> is_safe_path (demo_fs []) ''out'' ''ok.txt'' = Inr True
   \<and> is_safe_path (demo_fs []) ''out'' ''../secret.txt'' = Inr False
   \<and> fst (run [''splitter.py'', ''in.txt'', ''out''] (Line ''y'')
        (demo_proc ''===== FILE: ok.txt =====\<newline>A\<newline>===== FILE: ../secret.txt =====\<newline>B'')) = 1
   \<and> p_syscalls (snd (run [''splitter.py'', ''in.txt'', ''out''] (Line ''y'')
        (demo_proc ''===== FILE: ok.txt =====\<newline>A\<newline>===== FILE: ../secret.txt =====\<newline>B''))) = []"
proof -
  let ?text = "''===== FILE: ok.txt =====\<newline>A\<newline>===== FILE: ../secret.txt =====\<newline>B''"
  let ?argv = "[''splitter.py'', ''in.txt'', ''out'']"
  have parse: "parse_concatenated_file ?text = [(''ok.txt'', ''A\<newline>''), (''../secret.txt'', ''B'')]"
    by (simp add: text_defs pattern_defs)
  have a1: "2 \<le> length ?argv" by simp
  have a2: "''out'' = (if 2 < length ?argv then ?argv ! 2 else ''.'')" by simp
  have a3: "os_read_text (p_fs (demo_proc ?text)) (?argv ! 1) = Inr ?text"
    by (simp add: text_defs fs_defs has_nul_def demo_fs_def demo_proc_def)
  have a4: "(''../secret.txt'', ''B'') \<in> set (parse_concatenated_file ?text)"
    by (simp add: parse)
  have safe: "is_safe_path (demo_fs t) ''out'' ''ok.txt'' = Inr True" for t
    by (simp add: text_defs path_defs demo_fs_def)
  have unsafe: "is_safe_path (demo_fs t) ''out'' ''../secret.txt'' = Inr False" for t
    by (simp add: text_defs path_defs demo_fs_def)
  have a5: "is_safe_path (p_fs (demo_proc ?text)) ''out'' ''../secret.txt'' \<noteq> Inr True"
    by (simp add: unsafe demo_proc_def)
  from unsafe_path_gate [OF a1 a2 a3 a4 a5, of "Line ''y''"] a4 safe unsafe
  show ?thesis by (simp add: demo_proc_def)
qed

section \<open>System calls\<close>

lemma split_on_not_Nil [simp]: "split_on d s \<noteq> []"
  by (induction s) (auto split: list.splits)

lemma collapse_append: "collapse cur (xs @ ys) = collapse (collapse cur xs) ys"
  by (induction xs arbitrary: cur) auto

lemma walk_collapse: "walk fs cur xs = Inr n \<Longrightarrow> n = collapse cur xs"
  by (induction xs arbitrary: cur) (auto split: if_splits)

lemma mkdirs_frame:
  "mkdirs fs cur xs = (r, fs') \<Longrightarrow>
     fs_files fs' = fs_files fs \<and> fs_cwd fs' = fs_cwd fs \<and> fs_denied fs' = fs_denied fs"
proof (induction xs arbitrary: fs cur)
  case Nil
  then show ?case by simp
next
  case (Cons x xs)
  then show ?case
    by (auto split: if_splits dest!: Cons.IH)
qed

lemma os_makedirs_frame:
  "os_makedirs fs p = (r, fs') \<Longrightarrow>
     fs_files fs' = fs_files fs \<and> fs_cwd fs' = fs_cwd fs \<and> fs_denied fs' = fs_denied fs"
  by (auto simp: os_makedirs_def split: if_splits dest!: mkdirs_frame)


lemma os_write_text_success:
  assumes "os_write_text fs p text = (None, fs')"
  shows "fs' = fs\<lparr>fs_files := (fs_files fs)(node_of (fs_cwd fs) p \<mapsto> text)\<rparr>"
proof -
  let ?xs = "split_on CHR ''/'' p"
  from assms obtain cur where w: "walk fs (start_of fs p) (butlast ?xs) = Inr cur"
    and ns: "\<not> special (last ?xs)"
    and fs': "fs' = fs\<lparr>fs_files := (fs_files fs)(cur @ [last ?xs] \<mapsto> text)\<rparr>"
    by (auto simp: os_write_text_def Let_def split: if_splits sum.splits)
  have "collapse (start_of fs p) ?xs = collapse (start_of fs p) (butlast ?xs @ [last ?xs])"
    by simp
  also have "\<dots> = collapse cur [last ?xs]"
    using walk_collapse [OF w] by (simp only: collapse_append)
  also have "\<dots> = cur @ [last ?xs]"
    using ns by (simp add: special_def)
  finally have "node_of (fs_cwd fs) p = cur @ [last ?xs]"
    by (simp add: node_of_def start_of_def)
  with fs' show ?thesis by simp
qed

section \<open>File writer: the first error and the last write\<close>

lemma write_loop_Cons:
  "write_loop ((p, c) # rest) out w \<sigma> =
     (case write_loop [(p, c)] out w \<sigma> of
        (None, w1, \<sigma>1) \<Rightarrow> write_loop rest out w1 \<sigma>1
      | (Some e, w1, \<sigma>1) \<Rightarrow> (Some e, w1, \<sigma>1))"
  by (simp add: Let_def split: sum.splits prod.splits option.splits)



lemma makedirs_frame:
  assumes "makedirs d \<sigma> = (r, \<sigma>1)"
  shows "fs_files (p_fs \<sigma>1) = fs_files (p_fs \<sigma>) \<and> fs_cwd (p_fs \<sigma>1) = fs_cwd (p_fs \<sigma>)
     \<and> p_syscalls \<sigma>1 = p_syscalls \<sigma> @ [Makedirs d] \<and> p_stdout \<sigma>1 = p_stdout \<sigma>"
  using assms by (auto simp: makedirs_def split: prod.splits dest!: os_makedirs_frame)


lemma open_write_success:
  assumes "open_write f c \<sigma> = (None, \<sigma>1)"
  shows "fs_files (p_fs \<sigma>1) = (fs_files (p_fs \<sigma>))(node_of (fs_cwd (p_fs \<sigma>)) f \<mapsto> c)
     \<and> fs_cwd (p_fs \<sigma>1) = fs_cwd (p_fs \<sigma>)
     \<and> p_syscalls \<sigma>1 = p_syscalls \<sigma> @ [OpenWrite f c] \<and> p_stdout \<sigma>1 = p_stdout \<sigma>"
  using assms by (auto simp: open_write_def split: prod.splits dest!: os_write_text_success)


lemma write_step_success:
  assumes "write_loop [(p, c)] out w \<sigma> = (None, w1, \<sigma>1)"
  shows "w1 = w @ [os_path_join out p]
     \<and> fs_files (p_fs \<sigma>1)
         = (fs_files (p_fs \<sigma>))(node_of (fs_cwd (p_fs \<sigma>)) (os_path_join out p) \<mapsto> c)
     \<and> fs_cwd (p_fs \<sigma>1) = fs_cwd (p_fs \<sigma>)
     \<and> p_syscalls \<sigma>1 = p_syscalls \<sigma> @ calls_of out (p, c)
     \<and> p_stdout \<sigma>1 = p_stdout \<sigma> @ [''Written: '' @ os_path_join out p]"
proof (cases "os_path_dirname (os_path_join out p) = []")
  case True
  with assms show ?thesis
    by (auto simp: Let_def calls_of_def split: sum.splits if_splits prod.splits option.splits
        dest!: open_write_success)
next
  case False
  with assms show ?thesis
    by (auto simp: Let_def calls_of_def split: sum.splits if_splits prod.splits option.splits
        dest!: open_write_success makedirs_frame)
qed


lemma store_after_simps [simp]:
  "store_after cwd out [] m = m"
  "store_after cwd out ((p, c) # fl) m
     = store_after cwd out fl (m(node_of cwd (os_path_join out p) \<mapsto> c))"
  "store_after cwd out (xs @ ys) m = store_after cwd out ys (store_after cwd out xs m)"
  by (simp_all add: store_after_def)

lemma write_loop_success:
  "write_loop fl out w \<sigma> = (None, w1, \<sigma>1) \<Longrightarrow>
     w1 = w @ map (\<lambda>(p, c). os_path_join out p) fl
     \<and> fs_files (p_fs \<sigma>1) = store_after (fs_cwd (p_fs \<sigma>)) out fl (fs_files (p_fs \<sigma>))
     \<and> fs_cwd (p_fs \<sigma>1) = fs_cwd (p_fs \<sigma>)
     \<and> p_syscalls \<sigma>1 = p_syscalls \<sigma> @ concat (map (calls_of out) fl)
     \<and> p_stdout \<sigma>1 = p_stdout \<sigma> @ map (\<lambda>(p, c). ''Written: '' @ os_path_join out p) fl"
proof (induction fl arbitrary: w \<sigma>)
  case Nil
  then show ?case by simp
next
  case (Cons a fl)
  obtain p c where a: "a = (p, c)" by (cases a)
  from Cons.prems obtain w0 \<sigma>0 where
    step: "write_loop [(p, c)] out w \<sigma> = (None, w0, \<sigma>0)" and
    rest: "write_loop fl out w0 \<sigma>0 = (None, w1, \<sigma>1)"
    unfolding a by (subst (asm) write_loop_Cons) (auto split: prod.splits option.splits)
  note s = write_step_success [OF step]
  note r = Cons.IH [OF rest]
  from s have f0: "fs_files (p_fs \<sigma>0)
      = (fs_files (p_fs \<sigma>))(node_of (fs_cwd (p_fs \<sigma>)) (os_path_join out p) \<mapsto> c)"
    and c0: "fs_cwd (p_fs \<sigma>0) = fs_cwd (p_fs \<sigma>)"
    by blast+
  from r have "fs_files (p_fs \<sigma>1) = store_after (fs_cwd (p_fs \<sigma>0)) out fl (fs_files (p_fs \<sigma>0))"
    by blast
  then have files: "fs_files (p_fs \<sigma>1)
      = store_after (fs_cwd (p_fs \<sigma>)) out (a # fl) (fs_files (p_fs \<sigma>))"
    unfolding f0 c0 a store_after_simps(2) .
  from s r have "w1 = w @ map (\<lambda>(p, c). os_path_join out p) (a # fl)
     \<and> fs_cwd (p_fs \<sigma>1) = fs_cwd (p_fs \<sigma>)
     \<and> p_syscalls \<sigma>1 = p_syscalls \<sigma> @ concat (map (calls_of out) (a # fl))
     \<and> p_stdout \<sigma>1 = p_stdout \<sigma> @ map (\<lambda>(p, c). ''Written: '' @ os_path_join out p) (a # fl)"
    by (simp add: a)
  with files show ?case by blast
qed

lemma store_after_last:
  assumes "\<forall>(q, d) \<in> set ys. node_of cwd (os_path_join out q) \<noteq> node_of cwd (os_path_join out p)"
  shows "store_after cwd out (xs @ (p, c) # ys) m (node_of cwd (os_path_join out p)) = Some c"
proof -
  have "store_after cwd out ys m' (node_of cwd (os_path_join out p)) = m' (node_of cwd (os_path_join out p))" for m'
    using assms by (induction ys arbitrary: m') auto
  then show ?thesis by simp
qed

lemma write_loop_first_error:
  "write_loop fl out w \<sigma> = (Some e, w', \<sigma>') \<Longrightarrow>
     \<exists>pre p c post w1 \<sigma>1. fl = pre @ (p, c) # post
        \<and> write_loop pre out w \<sigma> = (None, w1, \<sigma>1)
        \<and> write_loop [(p, c)] out w1 \<sigma>1 = (Some e, w', \<sigma>')"
proof (induction fl arbitrary: w \<sigma>)
  case Nil
  then show ?case by simp
next
  case (Cons a fl)
  obtain p c where a: "a = (p, c)" by (cases a)
  obtain r w0 \<sigma>0 where step: "write_loop [(p, c)] out w \<sigma> = (r, w0, \<sigma>0)"
    by (cases "write_loop [(p, c)] out w \<sigma>")
  show ?case
  proof (cases r)
    case None
    with Cons.prems step have "write_loop fl out w0 \<sigma>0 = (Some e, w', \<sigma>')"
      unfolding a by (subst (asm) write_loop_Cons) simp
    from Cons.IH [OF this] obtain pre q d post w1 \<sigma>1 where
      fl: "fl = pre @ (q, d) # post"
      and pre: "write_loop pre out w0 \<sigma>0 = (None, w1, \<sigma>1)"
      and bad: "write_loop [(q, d)] out w1 \<sigma>1 = (Some e, w', \<sigma>')"
      by blast
    from step None pre have "write_loop ((p, c) # pre) out w \<sigma> = (None, w1, \<sigma>1)"
      by (subst write_loop_Cons) simp
    with fl bad have "a # fl = ((p, c) # pre) @ (q, d) # post
        \<and> write_loop ((p, c) # pre) out w \<sigma> = (None, w1, \<sigma>1)
        \<and> write_loop [(q, d)] out w1 \<sigma>1 = (Some e, w', \<sigma>')"
      by (simp add: a)
    then show ?thesis by blast
  next
    case (Some e0)
    with Cons.prems step have "write_loop [(p, c)] out w \<sigma> = (Some e, w', \<sigma>')"
      unfolding a by (subst (asm) write_loop_Cons) simp
    then have "a # fl = [] @ (p, c) # fl
        \<and> write_loop [] out w \<sigma> = (None, w, \<sigma>)
        \<and> write_loop [(p, c)] out w \<sigma> = (Some e, w', \<sigma>')"
      by (simp add: a)
    then show ?thesis by blast
  qed
qed

lemma write_files_outcomes:
  "(\<exists>\<sigma>'. write_files fl out \<sigma> = (Return (), \<sigma>')) \<or>
   (\<exists>pre p c post w \<sigma>1 e w' \<sigma>2 \<sigma>'. write_files fl out \<sigma> = (Exit 1, \<sigma>')
      \<and> fl = pre @ (p, c) # post
      \<and> write_loop pre out [] \<sigma> = (None, w, \<sigma>1)
      \<and> write_loop [(p, c)] out w \<sigma>1 = (Some e, w', \<sigma>2))"
proof (cases "write_loop fl out [] \<sigma>")
  case (fields r w' \<sigma>')
  show ?thesis
  proof (cases r)
    case None
    with fields show ?thesis by (simp add: write_files_def)
  next
    case (Some e)
    from write_loop_first_error [OF fields [unfolded Some]] obtain pre p c post w1 \<sigma>1 where
      d: "fl = pre @ (p, c) # post" "write_loop pre out [] \<sigma> = (None, w1, \<sigma>1)"
        "write_loop [(p, c)] out w1 \<sigma>1 = (Some e, w', \<sigma>')"
      by blast
    from fields Some have
      "write_files fl out \<sigma> = (Exit 1, fold print (report_written e w') \<sigma>')"
      by (simp add: write_files_def)
    with d show ?thesis by blast
  qed
qed



text \<open>
  Claim C8. When \<open>write_files\<close> returns, every section was written, in the listed
  order: the calls made are those of the sections, one section after the other. The
  file store is the old one with the sections' contents stored in that order, so a
  file that several sections name (their paths have the same node, as equal paths do)
  holds the content of the last of them.
\<close>

theorem last_write_wins:
  assumes "write_files files output_dir \<sigma> = (Return u, \<sigma>')"
  shows "p_syscalls \<sigma>' = p_syscalls \<sigma> @ concat (map (calls_of output_dir) files)
     \<and> fs_files (p_fs \<sigma>') = store_after (fs_cwd (p_fs \<sigma>)) output_dir files (fs_files (p_fs \<sigma>))
     \<and> (\<forall>xs p c ys. files = xs @ (p, c) # ys
           \<and> (\<forall>(q, d) \<in> set ys. node_of (fs_cwd (p_fs \<sigma>)) (os_path_join output_dir q)
                                    \<noteq> node_of (fs_cwd (p_fs \<sigma>)) (os_path_join output_dir p))
         \<longrightarrow> fs_files (p_fs \<sigma>') (node_of (fs_cwd (p_fs \<sigma>)) (os_path_join output_dir p)) = Some c)"
proof -
  from assms obtain w \<sigma>1 where l: "write_loop files output_dir [] \<sigma> = (None, w, \<sigma>1)"
    and \<sigma>': "\<sigma>' = print (CHR 0x0A # BOLD @ COLOR_GREEN @ ''All files written successfully.'' @ COLOR_RESET) \<sigma>1"
    by (auto simp: write_files_def split: prod.splits option.splits)
  note s = write_loop_success [OF l]
  from s \<sigma>' have calls: "p_syscalls \<sigma>' = p_syscalls \<sigma> @ concat (map (calls_of output_dir) files)"
    by simp
  from s \<sigma>' have store: "fs_files (p_fs \<sigma>')
      = store_after (fs_cwd (p_fs \<sigma>)) output_dir files (fs_files (p_fs \<sigma>))"
    by simp
  have last: "fs_files (p_fs \<sigma>') (node_of (fs_cwd (p_fs \<sigma>)) (os_path_join output_dir p)) = Some c"
    if "files = xs @ (p, c) # ys"
      and "\<forall>(q, d) \<in> set ys. node_of (fs_cwd (p_fs \<sigma>)) (os_path_join output_dir q)
                                \<noteq> node_of (fs_cwd (p_fs \<sigma>)) (os_path_join output_dir p)"
    for xs p c ys
    unfolding store that(1) by (rule store_after_last [OF that(2)])
  from calls store last show ?thesis by blast
qed

text \<open>
  A run for C8: \<open>a.txt\<close> is named by the first and, as \<open>./a.txt\<close>, by the third
  section; the third one's content is what the file holds.
\<close>

theorem last_write_wins_witness:
  "fst (write_files [(''a.txt'', ''1''), (''b.txt'', ''x''), (''./a.txt'', ''2'')] ''out'' (demo_proc []))
     = Return ()
   \<and> fs_files (p_fs (snd (write_files [(''a.txt'', ''1''), (''b.txt'', ''x''), (''./a.txt'', ''2'')] ''out''
         (demo_proc [])))) [''work'', ''out'', ''a.txt''] = Some ''2''"
proof -
  let ?fl = "[(''a.txt'', ''1''), (''b.txt'', ''x''), (''./a.txt'', ''2'')]"
  let ?\<sigma>' = "snd (write_files ?fl ''out'' (demo_proc []))"
  have r: "fst (write_files ?fl ''out'' (demo_proc [])) = Return ()"
    by (simp add: text_defs path_defs fs_defs proc_defs)
  then have h: "write_files ?fl ''out'' (demo_proc []) = (Return (), ?\<sigma>')"
    by (metis prod.collapse)
  have n: "node_of (fs_cwd (p_fs (demo_proc []))) (os_path_join ''out'' ''./a.txt'') = [''work'', ''out'', ''a.txt'']"
    by (simp add: node_of_def text_defs path_defs demo_fs_def demo_proc_def)
  from last_write_wins [OF h] have
    "fs_files (p_fs ?\<sigma>') (node_of (fs_cwd (p_fs (demo_proc []))) (os_path_join ''out'' ''./a.txt'')) = Some ''2''"
    by (elim conjE allE [of _ "[(''a.txt'', ''1''), (''b.txt'', ''x'')]"] allE [of _ "''./a.txt''"] allE [of _ "''2''"]
        allE [of _ "[]"]) simp
  with r show ?thesis unfolding n by simp
qed

section \<open>Confirmation prompt\<close>

lemma lower_char_n: "lower_char c = CHR ''n'' \<longleftrightarrow> c = CHR ''n'' \<or> c = CHR ''N''"
  by (simp add: lower_char_def upper_letters_def lower_letters_def)

lemma lower_char_o: "lower_char c = CHR ''o'' \<longleftrightarrow> c = CHR ''o'' \<or> c = CHR ''O''"
  by (simp add: lower_char_def upper_letters_def lower_letters_def)

lemma lower_eq_n: "lower s = ''n'' \<longleftrightarrow> s = ''n'' \<or> s = ''N''"
  by (cases s) (auto simp: lower_def lower_char_n)

lemma lower_eq_no: "lower s = ''no'' \<longleftrightarrow> s = ''no'' \<or> s = ''No'' \<or> s = ''nO'' \<or> s = ''NO''"
proof (cases s)
  case Nil
  then show ?thesis by (simp add: lower_def)
next
  case (Cons a t)
  then show ?thesis
    by (cases t) (auto simp: lower_def lower_char_n lower_char_o)
qed

lemma confirm_decline:
  assumes "stdin = Line ''n'' \<or> stdin = Interrupt"
  shows "fst (confirm fl out stdin \<sigma>) = Exit 0
     \<and> p_fs (snd (confirm fl out stdin \<sigma>)) = p_fs \<sigma>
     \<and> p_syscalls (snd (confirm fl out stdin \<sigma>)) = p_syscalls \<sigma>"
  using assms
  by (auto simp: confirm_def Let_def strip_def isspace_def lower_eq_n)

text \<open>
  Claim C7. When the answer at the prompt is \<open>n\<close>, or the prompt is interrupted, the
  run leaves the file system as it was and makes no call that changes it; and when the
  run reaches the prompt (the arguments are there, the output directory exists, the
  input was read, it has sections and none is unsafe) its status is 0.
\<close>

theorem decline_writes_nothing:
  assumes "stdin = Line ''n'' \<or> stdin = Interrupt"
  shows "p_fs (snd (run argv stdin \<sigma>)) = p_fs \<sigma>
     \<and> p_syscalls (snd (run argv stdin \<sigma>)) = p_syscalls \<sigma>
     \<and> (2 \<le> length argv
          \<and> os_path_isdir (p_fs \<sigma>) (if 2 < length argv then argv ! 2 else ''.'')
          \<and> os_read_text (p_fs \<sigma>) (argv ! 1) = Inr content
          \<and> parse_concatenated_file content \<noteq> []
          \<and> fst (list_files_status (parse_concatenated_file content)
                   (if 2 < length argv then argv ! 2 else ''.'') \<sigma>) = Return False
        \<longrightarrow> fst (run argv stdin \<sigma>) = 0)"
proof (cases "2 \<le> length argv
      \<and> os_path_isdir (p_fs \<sigma>) (if 2 < length argv then argv ! 2 else ''.'')
      \<and> (\<exists>content. os_read_text (p_fs \<sigma>) (argv ! 1) = Inr content
            \<and> parse_concatenated_file content \<noteq> [])")
  case False
  from main_early_frame [OF False, of stdin] False show ?thesis
    by (auto simp: run_def split: prod.splits)
next
  case True
  let ?out = "if 2 < length argv then argv ! 2 else ''.''"
  from True obtain body where a: "2 \<le> length argv" "os_path_isdir (p_fs \<sigma>) ?out"
    "os_read_text (p_fs \<sigma>) (argv ! 1) = Inr body" "parse_concatenated_file body \<noteq> []"
    by blast
  let ?fl = "parse_concatenated_file body"
  obtain r \<sigma>1 where l: "list_files_status ?fl ?out \<sigma> = (r, \<sigma>1)"
    by (cases "list_files_status ?fl ?out \<sigma>")
  note m = main_listing [OF a(1) refl a(2) a(3) a(4), of stdin]
  note fr = list_files_status_frame [OF l]
  note cd = confirm_decline [OF assms, of ?fl ?out \<sigma>1]
  have same: "content = body" if "os_read_text (p_fs \<sigma>) (argv ! 1) = Inr content"
    using that a(3) by simp
  show ?thesis
  proof (cases r)
    case (Return b)
    with m l fr cd same show ?thesis
      by (cases "confirm ?fl ?out stdin \<sigma>1") (auto simp: run_def exit_status_def)
  next
    case (Raise e)
    with m l fr same show ?thesis by (auto simp: run_def exit_status_def)
  next
    case (Exit n)
    with m l fr same show ?thesis by (auto simp: run_def exit_status_def)
  qed
qed

text \<open>
  A run for C7: one safe section, the answer \<open>n\<close>.
\<close>

theorem decline_writes_nothing_witness:
  "fst (list_files_status (parse_concatenated_file ''===== FILE: a.txt =====\<newline>A'') ''out''
          (demo_proc ''===== FILE: a.txt =====\<newline>A'')) = Return False
   \<and> fst (run [''splitter.py'', ''in.txt'', ''out''] (Line ''n'')
          (demo_proc ''===== FILE: a.txt =====\<newline>A'')) = 0
   \<and> p_syscalls (snd (run [''splitter.py'', ''in.txt'', ''out''] (Line ''n'')
          (demo_proc ''===== FILE: a.txt =====\<newline>A''))) = []
   \<and> p_fs (snd (run [''splitter.py'', ''in.txt'', ''out''] (Line ''n'')
          (demo_proc ''===== FILE: a.txt =====\<newline>A''))) = demo_fs ''===== FILE: a.txt =====\<newline>A''"
proof -
  let ?c = "''===== FILE: a.txt =====\<newline>A''"
  let ?argv = "[''splitter.py'', ''in.txt'', ''out'']"
  have p: "parse_concatenated_file ?c = [(''a.txt'', ''A'')]"
    by (simp add: text_defs pattern_defs)
  have a: "2 \<le> length ?argv
          \<and> os_path_isdir (p_fs (demo_proc ?c)) (if 2 < length ?argv then ?argv ! 2 else ''.'')
          \<and> os_read_text (p_fs (demo_proc ?c)) (?argv ! 1) = Inr ?c
          \<and> parse_concatenated_file ?c \<noteq> []
          \<and> fst (list_files_status (parse_concatenated_file ?c)
                   (if 2 < length ?argv then ?argv ! 2 else ''.'') (demo_proc ?c)) = Return False"
    unfolding p by (simp add: text_defs path_defs fs_defs proc_defs)
  have d: "Line ''n'' = Line ''n'' \<or> Line ''n'' = Interrupt" by simp
  from decline_writes_nothing [OF d, of ?argv "demo_proc ?c" ?c] a
  show ?thesis by (simp add: demo_proc_def)
qed

text \<open>
  Claim C10. At the prompt an answer declines exactly when, stripped of surrounding
  white space, it is \<open>n\<close> or \<open>no\<close> in any mix of upper and lower case; then the run
  leaves with status 0. Every other answer, the empty one included, hands the sections
  to \<open>write_files\<close>, whose result is the result of \<open>main\<close>.
\<close>

theorem prompt_acceptance:
  assumes "2 \<le> length argv"
    and "output_dir = (if 2 < length argv then argv ! 2 else ''.'')"
    and "os_path_isdir (p_fs \<sigma>) output_dir"
    and "os_read_text (p_fs \<sigma>) (argv ! 1) = Inr content"
    and "parse_concatenated_file content \<noteq> []"
    and "list_files_status (parse_concatenated_file content) output_dir \<sigma> = (Return False, \<sigma>1)"
    and "\<sigma>2 = print (BOLD @ ''Proceed with import? [Y/n]: '' @ COLOR_RESET) \<sigma>1"
  shows "main argv (Line answer) \<sigma> =
       (if strip answer \<in> {''n'', ''N'', ''no'', ''No'', ''nO'', ''NO''}
        then (Exit 0, print (COLOR_YELLOW @ ''Import cancelled.'' @ COLOR_RESET) \<sigma>2)
        else write_files (parse_concatenated_file content) output_dir \<sigma>2)
     \<and> main argv (Line []) \<sigma> = write_files (parse_concatenated_file content) output_dir \<sigma>2"
proof -
  have "main argv (Line a) \<sigma> = confirm (parse_concatenated_file content) output_dir (Line a) \<sigma>1" for a
    using main_listing [OF assms(1-5), of "Line a"] assms(6) by simp
  then show ?thesis
    unfolding assms(7)
    by (auto simp: confirm_def Let_def lower_eq_n lower_eq_no strip_def)
qed

text \<open>
  Runs for C10: \<open> NO \<close> declines; \<open>nope\<close> and the empty answer are accepted.
\<close>

theorem prompt_acceptance_witness:
  "fst (main [''splitter.py'', ''in.txt'', ''out''] (Line '' NO '')
          (demo_proc ''===== FILE: a.txt =====\<newline>A'')) = Exit 0
   \<and> main [''splitter.py'', ''in.txt'', ''out''] (Line ''nope'')
          (demo_proc ''===== FILE: a.txt =====\<newline>A'')
     = write_files [(''a.txt'', ''A'')] ''out''
         (print (BOLD @ ''Proceed with import? [Y/n]: '' @ COLOR_RESET)
            (snd (list_files_status [(''a.txt'', ''A'')] ''out''
                    (demo_proc ''===== FILE: a.txt =====\<newline>A''))))
   \<and> main [''splitter.py'', ''in.txt'', ''out''] (Line [])
          (demo_proc ''===== FILE: a.txt =====\<newline>A'')
     = write_files [(''a.txt'', ''A'')] ''out''
         (print (BOLD @ ''Proceed with import? [Y/n]: '' @ COLOR_RESET)
            (snd (list_files_status [(''a.txt'', ''A'')] ''out''
                    (demo_proc ''===== FILE: a.txt =====\<newline>A''))))"
proof -
  let ?c = "''===== FILE: a.txt =====\<newline>A''"
  let ?argv = "[''splitter.py'', ''in.txt'', ''out'']"
  let ?\<sigma>1 = "snd (list_files_status [(''a.txt'', ''A'')] ''out'' (demo_proc ?c))"
  have p: "parse_concatenated_file ?c = [(''a.txt'', ''A'')]"
    by (simp add: text_defs pattern_defs)
  have a1: "2 \<le> length ?argv" by simp
  have a2: "''out'' = (if 2 < length ?argv then ?argv ! 2 else ''.'')" by simp
  have a3: "os_path_isdir (p_fs (demo_proc ?c)) ''out''"
    by (simp add: text_defs fs_defs has_nul_def demo_fs_def demo_proc_def)
  have a4: "os_read_text (p_fs (demo_proc ?c)) (?argv ! 1) = Inr ?c"
    by (simp add: text_defs fs_defs has_nul_def demo_fs_def demo_proc_def)
  have a5: "parse_concatenated_file ?c \<noteq> []" by (simp add: p)
  have "fst (list_files_status [(''a.txt'', ''A'')] ''out'' (demo_proc ?c)) = Return False"
    by (simp add: text_defs path_defs fs_defs proc_defs)
  then have a6: "list_files_status (parse_concatenated_file ?c) ''out'' (demo_proc ?c) = (Return False, ?\<sigma>1)"
    unfolding p by (metis prod.collapse)
  note t = prompt_acceptance [OF a1 a2 a3 a4 a5 a6 refl]
  have s1: "strip '' NO '' = ''NO''" and s2: "strip ''nope'' = ''nope''"
    by (simp_all add: text_defs)
  from t [of "'' NO ''"] t [of "''nope''"] show ?thesis
    unfolding p s1 s2 by simp
qed

section \<open>Path safety checker: containment and exceptions\<close>

lemma prefix_take: "prefix xs ys \<longleftrightarrow> take (length xs) ys = xs"
  by (metis prefix_def append_eq_conv_conj append_take_drop_id)

lemma relative_to_at_or_below:
  "(\<exists>r. relative_to target base = Inr r) \<longleftrightarrow> at_or_below target base"
  by (simp add: relative_to_def at_or_below_def prefix_take)


lemma is_safe_path_raises:
  "is_safe_path fs base_dir file_path = Inl e \<longleftrightarrow>
     resolve fs (Path base_dir) = Inl e
     \<or> (\<exists>base. resolve fs (Path base_dir) = Inr base \<and> resolve fs (joinpath base file_path) = Inl e)"
  by (auto simp: is_safe_path_def relative_to_def split: sum.splits)












section \<open>Section parser: markers that span lines\<close>

text \<open>
  The class \<open>\s\<close> of the pattern accepts the line feed, so the white space before and
  after the path may run over line ends, and a match of the pattern need not be a
  marker line. The three inputs below contain such a match.
\<close>

text \<open>
  Claim C1 at an input with one marker line, \<open>===== FILE: a =====\<close>: the parser
  returns two sections, the second one from the lines \<open>===== FILE: b\<close> and \<open>=====\<close>,
  neither of which is a marker line.
\<close>

theorem multiline_marker_extra_section:
  "spec_marker_lines ''===== FILE: a =====\<newline>x\<newline>===== FILE: b\<newline>=====\<newline>y''
     = [''===== FILE: a ====='']
   \<and> parse_concatenated_file ''===== FILE: a =====\<newline>x\<newline>===== FILE: b\<newline>=====\<newline>y''
     = [(''a'', ''x\<newline>''), (''b'', ''y'')]"
  by (simp add: spec_marker_lines_def spec_marker_line_def text_defs pattern_defs)

text \<open>
  Claim C6 at an input without a marker line: the parser returns a section, and the
  run, when the prompt is answered with \<open>y\<close>, writes the file \<open>out/a\<close>.
\<close>

theorem multiline_marker_without_marker_line:
  "spec_marker_lines ''===== FILE: a\<newline>====='' = []
   \<and> parse_concatenated_file ''===== FILE: a\<newline>====='' = [(''a'', [])]
   \<and> fst (run [''splitter.py'', ''in.txt'', ''out''] (Line ''y'')
            (demo_proc ''===== FILE: a\<newline>=====''))  = 0
   \<and> p_syscalls (snd (run [''splitter.py'', ''in.txt'', ''out''] (Line ''y'')
            (demo_proc ''===== FILE: a\<newline>=====''))) = [Makedirs ''out'', OpenWrite ''out/a'' []]"
  by (simp add: spec_marker_lines_def spec_marker_line_def text_defs pattern_defs path_defs
      fs_defs proc_defs)

text \<open>
  Claim C9 at an input whose first marker line is its fourth line: the three lines
  before it are not discarded, they make the first section returned.
\<close>

theorem multiline_marker_before_first_marker_line:
  "split_on CHR 0x0A ''===== FILE: x\<newline>=====\<newline>foo\<newline>===== FILE: a =====\<newline>hello''
     = [''===== FILE: x'', ''====='', ''foo'', ''===== FILE: a ====='', ''hello'']
   \<and> spec_marker_lines ''===== FILE: x\<newline>=====\<newline>foo\<newline>===== FILE: a =====\<newline>hello''
     = [''===== FILE: a ====='']
   \<and> parse_concatenated_file ''===== FILE: x\<newline>=====\<newline>foo\<newline>===== FILE: a =====\<newline>hello''
     = [(''x'', ''foo\<newline>''), (''a'', ''hello'')]"
  by (simp add: spec_marker_lines_def spec_marker_line_def text_defs pattern_defs)


end
